theory Spec2Isabelle
  imports Main "HOL-Library.Word"
begin

section \<open>Data model (corpus.h)\<close>

text \<open>
  Attribute identifiers are \<^verbatim>\<open>uint32_t\<close>, modelled as \<^typ>\<open>32 word\<close>. Token positions,
  shifts and interval bounds are C++ \<^verbatim>\<open>int\<close>; they are modelled as \<^typ>\<open>int\<close>: positions are
  below the corpus length and shifts below the query length, and signed overflow is undefined
  behaviour in C++, so the model describes the executions that stay in range. Container sizes
  (\<^verbatim>\<open>size_t\<close>) are \<^typ>\<open>nat\<close>.
\<close>

type_synonym u32 = "32 word"

record Token =
  tok_word :: u32
  tok_c5 :: u32
  tok_lemma :: u32
  tok_pos :: u32

record Literal =
  attribute :: string
  lit_value :: u32
  is_equality :: bool

type_synonym Clause = "Literal list"
type_synonym Query = "Clause list"
type_synonym Index = "int list"

record Corpus =
  tokens :: "Token list"
  sentences :: "int list"
  index2string :: "string list"
  string2index :: "string \<rightharpoonup> u32"
  word_index :: Index
  c5_index :: Index
  lemma_index :: Index
  pos_index :: Index

record Match =
  sentence :: int
  pos :: int
  len :: int

text \<open>
  The variant \<^verbatim>\<open>std::variant<DenseSet, IndexSet, ExplicitSet>\<close>. \<^verbatim>\<open>DenseSet\<close> carries
  \<^verbatim>\<open>first\<close> and \<^verbatim>\<open>last\<close>; \<^verbatim>\<open>IndexSet\<close> carries the contents of the span and the shift;
  \<^verbatim>\<open>ExplicitSet\<close> carries the vector.
\<close>

datatype SetV =
  DenseSet int int
| IndexSet "int list" int
| ExplicitSet "int list"

record MatchSet =
  set_v :: SetV
  complement :: bool

datatype error =
  Nested_opening_bracket
| Mismatched_closing_bracket
| Missing_closing_bracket
| Unknown_attribute
| Attribute_not_recognized
| Uninitialised_read

section \<open>Standard-library searches\<close>

text \<open>
  \<^verbatim>\<open>std::lower_bound\<close> returns the furthermost position such that every element before it
  satisfies the comparison \<^verbatim>\<open>comp(element, value)\<close>; on a range partitioned by that comparison
  (its precondition) this is the length of the longest prefix satisfying it. Positions are
  offsets from the start of the range.
  \<^verbatim>\<open>std::binary_search\<close> is \<^verbatim>\<open>lower_bound\<close> followed by the test
  \<^verbatim>\<open>first != last && !(value < *first)\<close>.
\<close>

definition lower_bound :: "('a \<Rightarrow> bool) \<Rightarrow> 'a list \<Rightarrow> nat" where
  "lower_bound comp_elem_value xs = length (takeWhile comp_elem_value xs)"

text \<open>
  \<^verbatim>\<open>std::upper_bound\<close> likewise returns the furthermost position such that no element before
  it is above the value; the argument is the comparison \<^verbatim>\<open>comp(value, element)\<close>.
\<close>

definition upper_bound :: "('a \<Rightarrow> bool) \<Rightarrow> 'a list \<Rightarrow> nat" where
  "upper_bound comp_value_elem xs = length (takeWhile (\<lambda>x. \<not> comp_value_elem x) xs)"

definition binary_search :: "int list \<Rightarrow> int \<Rightarrow> bool" where
  "binary_search B v =
     (case drop (lower_bound (\<lambda>b. b < v) B) B of [] \<Rightarrow> False | b # _ \<Rightarrow> \<not> v < b)"

section \<open>Set algebra (corpus.cpp, Intersections)\<close>

definition binary_intersect_two_sets :: "int list \<Rightarrow> int list \<Rightarrow> int \<Rightarrow> int \<Rightarrow> int list" where
  "binary_intersect_two_sets A B A_shift B_shift =
     filter (\<lambda>x. binary_search B (x - A_shift + B_shift)) A"

definition binary_diff_two_sets :: "int list \<Rightarrow> int list \<Rightarrow> int \<Rightarrow> int \<Rightarrow> int list" where
  "binary_diff_two_sets A B A_shift B_shift =
     filter (\<lambda>x. \<not> binary_search B (x - A_shift + B_shift)) A"

fun intersect_two_sets :: "int list \<Rightarrow> int list \<Rightarrow> int \<Rightarrow> int \<Rightarrow> int list" where
  "intersect_two_sets (a # A) (b # B) A_shift B_shift =
     (if a - A_shift < b - B_shift then intersect_two_sets A (b # B) A_shift B_shift
      else if b - B_shift < a - A_shift then intersect_two_sets (a # A) B A_shift B_shift
      else (a - A_shift) # intersect_two_sets A B A_shift B_shift)"
| "intersect_two_sets A B A_shift B_shift = []"

fun diff_two_sets :: "int list \<Rightarrow> int list \<Rightarrow> int \<Rightarrow> int \<Rightarrow> int list" where
  "diff_two_sets (a # A) (b # B) A_shift B_shift =
     (if a - A_shift < b - B_shift then (a - A_shift) # diff_two_sets A (b # B) A_shift B_shift
      else if b - B_shift < a - A_shift then diff_two_sets (a # A) B A_shift B_shift
      else diff_two_sets A B A_shift B_shift)"
| "diff_two_sets A B A_shift B_shift = map (\<lambda>a. a - A_shift) A"

text \<open>
  \<^verbatim>\<open>diff_dense_x\<close> walks the counter \<open>p\<close> from \<^verbatim>\<open>A.first\<close> to \<^verbatim>\<open>A.last\<close>; the measure is the
  number of integers left in the interval plus the elements left in \<open>B\<close>.
\<close>

function diff_dense_x_loop :: "int \<Rightarrow> int \<Rightarrow> int list \<Rightarrow> int \<Rightarrow> int list" where
  "diff_dense_x_loop p l [] B_shift =
     (if p \<le> l then p # diff_dense_x_loop (p + 1) l [] B_shift else [])"
| "diff_dense_x_loop p l (b # B) B_shift =
     (if p \<le> l then
        (if p < b - B_shift then p # diff_dense_x_loop (p + 1) l (b # B) B_shift
         else if p > b - B_shift then diff_dense_x_loop p l B B_shift
         else diff_dense_x_loop (p + 1) l B B_shift)
      else [])"
  by pat_completeness auto
termination
  by (relation "measure (\<lambda>(p, l, B, s). nat (l + 1 - p) + length B)") auto

definition diff_dense_x :: "int \<Rightarrow> int \<Rightarrow> int list \<Rightarrow> int \<Rightarrow> int list" where
  "diff_dense_x A_first A_last B B_shift = diff_dense_x_loop A_first A_last B B_shift"

definition diff_x_denseset :: "int list \<Rightarrow> int \<Rightarrow> int \<Rightarrow> int \<Rightarrow> int list" where
  "diff_x_denseset A B_first B_last A_shift =
     filter (\<lambda>e. e < B_first \<or> e > B_last) (map (\<lambda>elem. elem - A_shift) A)"

subsection \<open>Same set type\<close>

definition intersection_EE :: "int list \<Rightarrow> int list \<Rightarrow> int list" where
  "intersection_EE A B =
     (if length A * 10 \<le> length B then binary_intersect_two_sets A B 0 0
      else if length A > length B * 10 then binary_intersect_two_sets B A 0 0
      else intersect_two_sets A B 0 0)"

definition difference_EE :: "int list \<Rightarrow> int list \<Rightarrow> int list" where
  "difference_EE A B =
     (if length A \<ge> length B * 10 then binary_diff_two_sets A B 0 0
      else diff_two_sets A B 0 0)"

definition intersection_II :: "int list \<Rightarrow> int \<Rightarrow> int list \<Rightarrow> int \<Rightarrow> int list" where
  "intersection_II A A_shift B B_shift =
     (if length A * 10 \<le> length B then binary_intersect_two_sets A B A_shift B_shift
      else if length A > length B * 10 then binary_intersect_two_sets B A B_shift A_shift
      else intersect_two_sets A B A_shift B_shift)"

definition difference_II :: "int list \<Rightarrow> int \<Rightarrow> int list \<Rightarrow> int \<Rightarrow> int list" where
  "difference_II A A_shift B B_shift =
     (if length A \<ge> length B * 10 then binary_diff_two_sets A B A_shift B_shift
      else diff_two_sets A B A_shift B_shift)"

definition intersection_DD :: "int \<Rightarrow> int \<Rightarrow> int \<Rightarrow> int \<Rightarrow> int \<times> int" where
  "intersection_DD A_first A_last B_first B_last = (max A_first B_first, min A_last B_last)"

definition difference_DD :: "int \<Rightarrow> int \<Rightarrow> int \<Rightarrow> int \<Rightarrow> int \<times> int" where
  "difference_DD A_first A_last B_first B_last =
     (if A_last \<le> B_first \<or> A_first \<ge> B_last then (A_first, A_last)
      else if A_first < B_first then (A_first, B_first)
      else (0, 0))"

subsection \<open>Index and explicit\<close>

definition intersection_IE :: "int list \<Rightarrow> int \<Rightarrow> int list \<Rightarrow> int list" where
  "intersection_IE A A_shift B =
     (if length A * 10 \<le> length B then binary_intersect_two_sets A B A_shift 0
      else if length A > length B * 10 then binary_intersect_two_sets B A 0 A_shift
      else intersect_two_sets A B A_shift 0)"

definition intersection_EI :: "int list \<Rightarrow> int list \<Rightarrow> int \<Rightarrow> int list" where
  "intersection_EI A B B_shift = intersection_IE B B_shift A"

definition difference_IE :: "int list \<Rightarrow> int \<Rightarrow> int list \<Rightarrow> int list" where
  "difference_IE A A_shift B =
     (if length A \<ge> length B * 10 then binary_diff_two_sets A B A_shift 0
      else diff_two_sets A B A_shift 0)"

definition difference_EI :: "int list \<Rightarrow> int list \<Rightarrow> int \<Rightarrow> int list" where
  "difference_EI A B B_shift =
     (if length A \<ge> length B * 10 then binary_diff_two_sets A B 0 B_shift
      else diff_two_sets A B 0 B_shift)"

subsection \<open>Dense and explicit\<close>

text \<open>The loop copies the elements of \<open>B\<close> and returns at the first one above \<^verbatim>\<open>A.last\<close>.\<close>

definition intersection_DE :: "int \<Rightarrow> int \<Rightarrow> int list \<Rightarrow> int list" where
  "intersection_DE A_first A_last B = takeWhile (\<lambda>i. \<not> i > A_last) B"

definition intersection_ED :: "int list \<Rightarrow> int \<Rightarrow> int \<Rightarrow> int list" where
  "intersection_ED A B_first B_last = intersection_DE B_first B_last A"

definition difference_DE :: "int \<Rightarrow> int \<Rightarrow> int list \<Rightarrow> int list" where
  "difference_DE A_first A_last B = diff_dense_x A_first A_last B 0"

definition difference_ED :: "int list \<Rightarrow> int \<Rightarrow> int \<Rightarrow> int list" where
  "difference_ED A B_first B_last = diff_x_denseset A B_first B_last 0"

subsection \<open>Index and dense\<close>

definition intersection_ID :: "int list \<Rightarrow> int \<Rightarrow> int \<Rightarrow> int \<Rightarrow> int list" where
  "intersection_ID A A_shift B_first B_last =
     map (\<lambda>i. i - A_shift) (filter (\<lambda>i. i - A_shift \<le> B_last \<and> i - A_shift \<ge> B_first) A)"

definition intersection_DI :: "int \<Rightarrow> int \<Rightarrow> int list \<Rightarrow> int \<Rightarrow> int list" where
  "intersection_DI A_first A_last B B_shift = intersection_ID B B_shift A_first A_last"

definition difference_DI :: "int \<Rightarrow> int \<Rightarrow> int list \<Rightarrow> int \<Rightarrow> int list" where
  "difference_DI A_first A_last B B_shift = diff_dense_x A_first A_last B B_shift"

definition difference_ID :: "int list \<Rightarrow> int \<Rightarrow> int \<Rightarrow> int \<Rightarrow> int list" where
  "difference_ID A A_shift B_first B_last = diff_x_denseset A B_first B_last A_shift"

subsection \<open>Dispatch on the representation pair (\<^verbatim>\<open>std::visit\<close>)\<close>

fun intersection_v :: "SetV \<Rightarrow> SetV \<Rightarrow> SetV" where
  "intersection_v (DenseSet af al) (DenseSet bf bl) =
     (case intersection_DD af al bf bl of (f, l) \<Rightarrow> DenseSet f l)"
| "intersection_v (DenseSet af al) (IndexSet B bs) = ExplicitSet (intersection_DI af al B bs)"
| "intersection_v (DenseSet af al) (ExplicitSet B) = ExplicitSet (intersection_DE af al B)"
| "intersection_v (IndexSet A as) (DenseSet bf bl) = ExplicitSet (intersection_ID A as bf bl)"
| "intersection_v (IndexSet A as) (IndexSet B bs) = ExplicitSet (intersection_II A as B bs)"
| "intersection_v (IndexSet A as) (ExplicitSet B) = ExplicitSet (intersection_IE A as B)"
| "intersection_v (ExplicitSet A) (DenseSet bf bl) = ExplicitSet (intersection_ED A bf bl)"
| "intersection_v (ExplicitSet A) (IndexSet B bs) = ExplicitSet (intersection_EI A B bs)"
| "intersection_v (ExplicitSet A) (ExplicitSet B) = ExplicitSet (intersection_EE A B)"

fun difference_v :: "SetV \<Rightarrow> SetV \<Rightarrow> SetV" where
  "difference_v (DenseSet af al) (DenseSet bf bl) =
     (case difference_DD af al bf bl of (f, l) \<Rightarrow> DenseSet f l)"
| "difference_v (DenseSet af al) (IndexSet B bs) = ExplicitSet (difference_DI af al B bs)"
| "difference_v (DenseSet af al) (ExplicitSet B) = ExplicitSet (difference_DE af al B)"
| "difference_v (IndexSet A as) (DenseSet bf bl) = ExplicitSet (difference_ID A as bf bl)"
| "difference_v (IndexSet A as) (IndexSet B bs) = ExplicitSet (difference_II A as B bs)"
| "difference_v (IndexSet A as) (ExplicitSet B) = ExplicitSet (difference_IE A as B)"
| "difference_v (ExplicitSet A) (DenseSet bf bl) = ExplicitSet (difference_ED A bf bl)"
| "difference_v (ExplicitSet A) (IndexSet B bs) = ExplicitSet (difference_EI A B bs)"
| "difference_v (ExplicitSet A) (ExplicitSet B) = ExplicitSet (difference_EE A B)"

definition intersection :: "MatchSet \<Rightarrow> MatchSet \<Rightarrow> MatchSet" where
  "intersection A B =
     (if complement A \<and> complement B then
        \<lparr>set_v = intersection_v (set_v A) (set_v B), complement = True\<rparr>
      else if complement A then
        \<lparr>set_v = difference_v (set_v B) (set_v A), complement = False\<rparr>
      else if complement B then
        \<lparr>set_v = difference_v (set_v A) (set_v B), complement = False\<rparr>
      else
        \<lparr>set_v = intersection_v (set_v A) (set_v B), complement = False\<rparr>)"

section \<open>Indexing\<close>

text \<open>
  \<^verbatim>\<open>insert_and_get_index\<close> mutates the corpus; the model returns the identifier together with
  the updated corpus. The new identifier is \<^verbatim>\<open>index2string.size()\<close> converted to
  \<^verbatim>\<open>uint32_t\<close>, which keeps the low 32 bits.
\<close>

definition insert_and_get_index :: "Corpus \<Rightarrow> string \<Rightarrow> u32 \<times> Corpus" where
  "insert_and_get_index corpus str =
     (case string2index corpus str of
        Some index \<Rightarrow> (index, corpus)
      | None \<Rightarrow>
          (let new_index = length (index2string corpus) in
           (of_nat new_index,
            corpus\<lparr>index2string := index2string corpus @ [str],
                   string2index := (string2index corpus)(str \<mapsto> of_nat new_index)\<rparr>)))"

text \<open>\<^verbatim>\<open>std::stable_sort\<close> of the positions \<open>0..T-1\<close> by the attribute of the token there.\<close>

definition build_index :: "Token list \<Rightarrow> (Token \<Rightarrow> u32) \<Rightarrow> Index" where
  "build_index toks attr =
     sort_key (\<lambda>a. attr (toks ! nat a)) (map int [0..<length toks])"

definition build_indices :: "Corpus \<Rightarrow> Corpus" where
  "build_indices corpus =
     corpus\<lparr>word_index := build_index (tokens corpus) tok_word,
            c5_index := build_index (tokens corpus) tok_c5,
            lemma_index := build_index (tokens corpus) tok_lemma,
            pos_index := build_index (tokens corpus) tok_pos\<rparr>"

text \<open>
  The range of an index whose tokens carry the value: \<^verbatim>\<open>lower_bound\<close> over the whole index,
  then \<^verbatim>\<open>upper_bound\<close> from there; the span starts at \<^verbatim>\<open>first\<close> and has
  \<^verbatim>\<open>distance(first, last)\<close> elements.
\<close>

definition index_range :: "Token list \<Rightarrow> Index \<Rightarrow> (Token \<Rightarrow> u32) \<Rightarrow> u32 \<Rightarrow> int list" where
  "index_range toks index attribute_point v =
     (let first = lower_bound (\<lambda>a. attribute_point (toks ! nat a) < v) index;
          rest = drop first index;
          n = upper_bound (\<lambda>b. v < attribute_point (toks ! nat b)) rest
      in take n rest)"

text \<open>The returned \<^verbatim>\<open>IndexSet\<close> is the pair of the span's contents and the shift 0.\<close>

definition index_lookup :: "Corpus \<Rightarrow> string \<Rightarrow> u32 \<Rightarrow> error + int list \<times> int" where
  "index_lookup corpus attr v =
     (if attr = ''word'' then
        Inr (index_range (tokens corpus) (word_index corpus) tok_word v, 0)
      else if attr = ''c5'' then
        Inr (index_range (tokens corpus) (c5_index corpus) tok_c5 v, 0)
      else if attr = ''lemma'' then
        Inr (index_range (tokens corpus) (lemma_index corpus) tok_lemma v, 0)
      else if attr = ''pos'' then
        Inr (index_range (tokens corpus) (pos_index corpus) tok_pos v, 0)
      else Inl Unknown_attribute)"

section \<open>Matching\<close>

fun find_set_size :: "MatchSet \<Rightarrow> int" where
  "find_set_size m =
     (case set_v m of
        DenseSet f l \<Rightarrow> l - f + 1
      | IndexSet es s \<Rightarrow> int (length es)
      | ExplicitSet es \<Rightarrow> int (length es))"

text \<open>
  The first loop of \<^verbatim>\<open>intersect_with_plan\<close>: dense sets are collapsed into \<^verbatim>\<open>dense_set\<close>
  (\<open>None\<close> while \<^verbatim>\<open>dense_found\<close> is false), the others are collected in order.
\<close>

fun partition_sets ::
  "MatchSet list \<Rightarrow> MatchSet option \<Rightarrow> MatchSet list \<Rightarrow> MatchSet option \<times> MatchSet list" where
  "partition_sets [] dense_set otherSets = (dense_set, otherSets)"
| "partition_sets (s # sets) dense_set otherSets =
     (case set_v s of
        DenseSet f l \<Rightarrow>
          partition_sets sets
            (Some (case dense_set of None \<Rightarrow> s | Some d \<Rightarrow> intersection d s)) otherSets
      | _ \<Rightarrow> partition_sets sets dense_set (otherSets @ [s]))"

text \<open>
  \<^verbatim>\<open>std::sort\<close> by \<^verbatim>\<open>find_set_size\<close> leaves the order of sets of equal size unspecified; the
  model sorts stably. With no set at all the source returns a \<^verbatim>\<open>MatchSet\<close> whose complement
  flag was never written, which the model reports as an error value.
\<close>

definition intersect_with_plan :: "MatchSet list \<Rightarrow> error + MatchSet" where
  "intersect_with_plan sets =
     (case partition_sets sets None [] of
        (dense_set, otherSets) \<Rightarrow>
          (case sort_key find_set_size otherSets of
             [] \<Rightarrow> (case dense_set of None \<Rightarrow> Inl Uninitialised_read | Some d \<Rightarrow> Inr d)
           | s # rest \<Rightarrow>
               (let returnSet = foldl intersection s rest in
                Inr (case dense_set of None \<Rightarrow> returnSet
                     | Some d \<Rightarrow> intersection returnSet d))))"

definition match_set_literal :: "Corpus \<Rightarrow> Literal \<Rightarrow> int \<Rightarrow> error + MatchSet" where
  "match_set_literal corpus literal shift =
     (case index_lookup corpus (attribute literal) (lit_value literal) of
        Inl e \<Rightarrow> Inl e
      | Inr (es, s) \<Rightarrow>
          Inr \<lparr>set_v = IndexSet es shift, complement = \<not> is_equality literal\<rparr>)"

text \<open>A loop that pushes one result per element and stops at the first exception.\<close>

fun collect_sets :: "('a \<Rightarrow> error + 'b) \<Rightarrow> 'a list \<Rightarrow> error + 'b list" where
  "collect_sets f [] = Inr []"
| "collect_sets f (x # xs) =
     (case f x of
        Inl e \<Rightarrow> Inl e
      | Inr y \<Rightarrow> (case collect_sets f xs of Inl e \<Rightarrow> Inl e | Inr ys \<Rightarrow> Inr (y # ys)))"

definition match_set_clause :: "Corpus \<Rightarrow> Clause \<Rightarrow> int \<Rightarrow> error + MatchSet" where
  "match_set_clause corpus clause shift =
     (if clause = [] then
        Inr \<lparr>set_v = DenseSet 0 (int (length (tokens corpus)) - 1), complement = False\<rparr>
      else
        (case collect_sets (\<lambda>literal. match_set_literal corpus literal shift) clause of
           Inl e \<Rightarrow> Inl e
         | Inr sets \<Rightarrow> intersect_with_plan sets))"

text \<open>
  For the empty query the source returns \<^verbatim>\<open>{}\<close>: a value-initialised \<^verbatim>\<open>MatchSet\<close>, whose
  variant holds its first alternative, a \<^verbatim>\<open>DenseSet\<close> with both fields zero, and whose
  complement flag is false.
\<close>

definition match_set :: "Corpus \<Rightarrow> Query \<Rightarrow> error + MatchSet" where
  "match_set corpus query =
     (if query = [] then Inr \<lparr>set_v = DenseSet 0 0, complement = False\<rparr>
      else
        (case collect_sets (\<lambda>(clause, shift). match_set_clause corpus clause (int shift))
                (zip query [0..<length query]) of
           Inl e \<Rightarrow> Inl e
         | Inr sets \<Rightarrow>
             (case intersect_with_plan sets of
                Inl e \<Rightarrow> Inl e
              | Inr s \<Rightarrow>
                  (if complement s then
                     Inr (intersection
                            \<lparr>set_v = DenseSet 0 (int (length (tokens corpus)) - 1),
                             complement = False\<rparr> s)
                   else Inr s))))"

definition sentence_index_of :: "Corpus \<Rightarrow> int \<Rightarrow> int" where
  "sentence_index_of corpus i = int (upper_bound (\<lambda>s. i < s) (sentences corpus)) - 1"

definition match2 :: "Corpus \<Rightarrow> Query \<Rightarrow> error + Match list" where
  "match2 corpus query =
     (case match_set corpus query of
        Inl e \<Rightarrow> Inl e
      | Inr matchSet \<Rightarrow>
          Inr (case set_v matchSet of
                 DenseSet f l \<Rightarrow>
                   map (\<lambda>i. \<lparr>sentence = sentence_index_of corpus i, pos = i, len = 1\<rparr>) [f..l]
               | IndexSet es s \<Rightarrow>
                   map (\<lambda>i. \<lparr>sentence = sentence_index_of corpus i, pos = i, len = 1\<rparr>) es
               | ExplicitSet es \<Rightarrow>
                   map (\<lambda>i. \<lparr>sentence = sentence_index_of corpus i, pos = i,
                             len = int (length query)\<rparr>) es))"

section \<open>Matching, first version (\<^verbatim>\<open>match\<close>)\<close>

text \<open>
  The first version scans every sentence position by position. Its counters are \<^verbatim>\<open>size_t\<close>,
  modelled as \<^typ>\<open>nat\<close>; the sentence starts it reads are not negative.
\<close>

definition compare_literal_token :: "Token \<Rightarrow> Literal \<Rightarrow> error + bool" where
  "compare_literal_token token literal =
     (let attr = attribute literal; val = lit_value literal; is_equal = is_equality literal in
      if attr = ''word'' then Inr (if is_equal then tok_word token = val else tok_word token \<noteq> val)
      else if attr = ''c5'' then Inr (if is_equal then tok_c5 token = val else tok_c5 token \<noteq> val)
      else if attr = ''lemma'' then
        Inr (if is_equal then tok_lemma token = val else tok_lemma token \<noteq> val)
      else if attr = ''pos'' then Inr (if is_equal then tok_pos token = val else tok_pos token \<noteq> val)
      else Inl Attribute_not_recognized)"

text \<open>
  The loop of \<^verbatim>\<open>compare_token_clause\<close> visits every literal and counts the matching ones; an
  unknown attribute raises at the literal where it is met.
\<close>

fun count_matching_literals :: "Token \<Rightarrow> Literal list \<Rightarrow> nat \<Rightarrow> error + nat" where
  "count_matching_literals token [] matching_literals = Inr matching_literals"
| "count_matching_literals token (literal # clause) matching_literals =
     (case compare_literal_token token literal of
        Inl e \<Rightarrow> Inl e
      | Inr b \<Rightarrow>
          count_matching_literals token clause
            (if b then matching_literals + 1 else matching_literals))"

definition compare_token_clause :: "Token \<Rightarrow> Clause \<Rightarrow> error + bool" where
  "compare_token_clause token clause =
     (if clause = [] then Inr True
      else (case count_matching_literals token clause 0 of
              Inl e \<Rightarrow> Inl e
            | Inr matching_literals \<Rightarrow> Inr (matching_literals = length clause)))"

text \<open>
  The loop over \<open>j\<close>: \<open>ij\<close> is \<open>i + j\<close>, the remaining clauses are those from index \<open>j\<close> on; it
  breaks with false at the first position beyond the sentence or the first clause that does
  not match.
\<close>

fun all_clauses_match :: "Corpus \<Rightarrow> Query \<Rightarrow> nat \<Rightarrow> nat \<Rightarrow> error + bool" where
  "all_clauses_match corpus [] ij end_pos = Inr True"
| "all_clauses_match corpus (clause # query) ij end_pos =
     (if ij \<ge> end_pos then Inr False
      else (case compare_token_clause (tokens corpus ! ij) clause of
              Inl e \<Rightarrow> Inl e
            | Inr b \<Rightarrow> if b then all_clauses_match corpus query (ij + 1) end_pos else Inr False))"

text \<open>The loop over the positions \<open>i\<close> of one sentence, and the loop over the sentences.\<close>

fun match_positions :: "Corpus \<Rightarrow> Query \<Rightarrow> nat \<Rightarrow> nat list \<Rightarrow> nat \<Rightarrow> error + Match list" where
  "match_positions corpus query sentence_index [] end_pos = Inr []"
| "match_positions corpus query sentence_index (i # rest) end_pos =
     (case all_clauses_match corpus query i end_pos of
        Inl e \<Rightarrow> Inl e
      | Inr b \<Rightarrow>
          (case match_positions corpus query sentence_index rest end_pos of
             Inl e \<Rightarrow> Inl e
           | Inr matches \<Rightarrow>
               Inr (if b then \<lparr>sentence = int sentence_index, pos = int i,
                                len = int (length query)\<rparr> # matches
                    else matches)))"

fun match_sentences :: "Corpus \<Rightarrow> Query \<Rightarrow> nat list \<Rightarrow> error + Match list" where
  "match_sentences corpus query [] = Inr []"
| "match_sentences corpus query (sentence_index # rest) =
     (let start = nat (sentences corpus ! sentence_index);
          end_pos = (if sentence_index + 1 < length (sentences corpus)
                     then nat (sentences corpus ! (sentence_index + 1))
                     else length (tokens corpus))
      in case match_positions corpus query sentence_index [start..<end_pos] end_pos of
           Inl e \<Rightarrow> Inl e
         | Inr ms \<Rightarrow>
             (case match_sentences corpus query rest of
                Inl e \<Rightarrow> Inl e
              | Inr ms' \<Rightarrow> Inr (ms @ ms')))"

definition match :: "Corpus \<Rightarrow> Query \<Rightarrow> error + Match list" where
  "match corpus query = match_sentences corpus query [0..<length (sentences corpus)]"

section \<open>Parsing: \<^verbatim>\<open>split_clauses\<close>\<close>

fun split_clauses_loop :: "string \<Rightarrow> string list \<Rightarrow> string \<Rightarrow> bool \<Rightarrow> error + string list" where
  "split_clauses_loop [] clauses sub_clause in_clause =
     (if in_clause then Inl Missing_closing_bracket else Inr clauses)"
| "split_clauses_loop (ch # text) clauses sub_clause in_clause =
     (if ch = CHR ''['' then
        (if in_clause then Inl Nested_opening_bracket
         else split_clauses_loop text clauses [] True)
      else if ch = CHR '']'' then
        (if in_clause then split_clauses_loop text (clauses @ [sub_clause]) sub_clause False
         else Inl Mismatched_closing_bracket)
      else if in_clause then split_clauses_loop text clauses (sub_clause @ [ch]) in_clause
      else split_clauses_loop text clauses sub_clause in_clause)"

definition split_clauses :: "string \<Rightarrow> error + string list" where
  "split_clauses text = split_clauses_loop text [] [] False"


section \<open>Specification-side notions\<close>

subsection \<open>Brackets of a query string\<close>

text \<open>
  A prefix of the query string leaves the reader inside a clause when the last bracket in it
  is an opening one (and outside when it is a closing one or there is none);
  \<open>inside_from b\<close> is the same notion for a reader that starts in state \<open>b\<close>. A string is
  rendered from a sequence of gaps and bracketed bodies, followed by trailing text.
\<close>

definition is_bracket :: "char \<Rightarrow> bool" where
  "is_bracket c = (c = CHR ''['' \<or> c = CHR '']'')"

definition inside_from :: "bool \<Rightarrow> string \<Rightarrow> bool" where
  "inside_from b p = (case rev (filter is_bracket p) of [] \<Rightarrow> b | c # _ \<Rightarrow> c = CHR ''['')"

definition inside :: "string \<Rightarrow> bool" where
  "inside p = inside_from False p"

definition malformed_from :: "bool \<Rightarrow> string \<Rightarrow> bool" where
  "malformed_from b text =
     ((\<exists>p r. text = p @ CHR ''['' # r \<and> inside_from b p) \<or>
      (\<exists>p r. text = p @ CHR '']'' # r \<and> \<not> inside_from b p) \<or>
      inside_from b text)"

fun render :: "(string \<times> string) list \<Rightarrow> string" where
  "render [] = []"
| "render ((gap, body) # cs) = gap @ CHR ''['' # body @ CHR '']'' # render cs"

definition bracket_free :: "string \<Rightarrow> bool" where
  "bracket_free s = (filter is_bracket s = [])"

subsection \<open>The set a representation stands for\<close>

text \<open>
  A dense interval stands for the integers from \<^verbatim>\<open>first\<close> to \<^verbatim>\<open>last\<close>, an index view for
  its elements with the shift subtracted, a materialized vector for its elements.
\<close>

fun elements :: "SetV \<Rightarrow> int set" where
  "elements (DenseSet f l) = {f..l}"
| "elements (IndexSet es s) = (\<lambda>x. x - s) ` set es"
| "elements (ExplicitSet es) = set es"

subsection \<open>A three-token corpus\<close>

text \<open>
  Two sentences: tokens 0 and 1, then token 2. All twelve attribute values are different, so
  the identifiers are 0 to 11 in reading order, as \<^verbatim>\<open>load_corpus\<close> assigns them. The
  dictionary is not consulted by the evaluator and is left empty.
\<close>

definition example_corpus :: Corpus where
  "example_corpus =
     build_indices
       \<lparr>tokens = [\<lparr>tok_word = 0, tok_c5 = 1, tok_lemma = 2, tok_pos = 3\<rparr>,
                  \<lparr>tok_word = 4, tok_c5 = 5, tok_lemma = 6, tok_pos = 7\<rparr>,
                  \<lparr>tok_word = 8, tok_c5 = 9, tok_lemma = 10, tok_pos = 11\<rparr>],
        sentences = [0, 2], index2string = [], string2index = Map.empty,
        word_index = [], c5_index = [], lemma_index = [], pos_index = []\<rparr>"

definition word_is :: "u32 \<Rightarrow> Literal" where
  "word_is v = \<lparr>attribute = ''word'', lit_value = v, is_equality = True\<rparr>"

subsection \<open>Runs of dictionary insertions\<close>

text \<open>
  A default-constructed \<^verbatim>\<open>Corpus\<close>, and a run of successive calls of
  \<^verbatim>\<open>insert_and_get_index\<close> on the same corpus object: the identifiers returned, in call
  order, and the final corpus.
\<close>

definition empty_corpus :: Corpus where
  "empty_corpus =
     \<lparr>tokens = [], sentences = [], index2string = [], string2index = Map.empty,
      word_index = [], c5_index = [], lemma_index = [], pos_index = []\<rparr>"

fun insert_all :: "Corpus \<Rightarrow> string list \<Rightarrow> u32 list \<times> Corpus" where
  "insert_all corpus [] = ([], corpus)"
| "insert_all corpus (s # ss) =
     (case insert_and_get_index corpus s of
        (i, corpus') \<Rightarrow>
          (case insert_all corpus' ss of (ids, corpus'') \<Rightarrow> (i # ids, corpus'')))"

text \<open>The distinct strings of a list in the order of their first occurrence.\<close>

definition first_occurrences :: "string list \<Rightarrow> string list" where
  "first_occurrences ss = rev (remdups (rev ss))"

text \<open>
  The invariant of the dictionary: \<^verbatim>\<open>index2string\<close> has no repetition and
  \<^verbatim>\<open>string2index\<close> maps its \<open>k\<close>-th string to \<open>k\<close>, converted to 32 bits.
\<close>

definition dict_inv :: "Corpus \<Rightarrow> bool" where
  "dict_inv c =
     (distinct (index2string c) \<and>
      string2index c =
        map_of (zip (index2string c) (map of_nat [0..<length (index2string c)])))"

text \<open>Pairwise distinct strings: \<open>n\<close> letters \<open>a\<close>.\<close>

definition unary :: "nat \<Rightarrow> string" where
  "unary n = replicate n CHR ''a''"

section \<open>The evaluator\<close>

text \<open>
  A query made of empty clauses only: every clause set is the interval of all positions, the
  plan collapses them into that interval, and \<^verbatim>\<open>match2\<close> takes its \<^verbatim>\<open>DenseSet\<close> branch.
\<close>

lemma collect_sets_all_Inr:
  "(\<And>x. x \<in> set xs \<Longrightarrow> f x = Inr (g x)) \<Longrightarrow> collect_sets f xs = Inr (map g xs)"
  by (induction xs) simp_all

lemma intersection_dense_idem:
  "intersection \<lparr>set_v = DenseSet 0 t, complement = False\<rparr> \<lparr>set_v = DenseSet 0 t, complement = False\<rparr>
     = \<lparr>set_v = DenseSet 0 t, complement = False\<rparr>"
  by (simp add: intersection_def intersection_DD_def)

lemma partition_sets_dense:
  "partition_sets (replicate n \<lparr>set_v = DenseSet 0 t, complement = False\<rparr>)
     (Some \<lparr>set_v = DenseSet 0 t, complement = False\<rparr>) [] =
   (Some \<lparr>set_v = DenseSet 0 t, complement = False\<rparr>, [])"
  by (induction n) (simp_all add: intersection_dense_idem)

lemma intersect_with_plan_dense:
  "intersect_with_plan (replicate (Suc n) \<lparr>set_v = DenseSet 0 t, complement = False\<rparr>) =
   Inr \<lparr>set_v = DenseSet 0 t, complement = False\<rparr>"
  by (simp add: intersect_with_plan_def partition_sets_dense)

lemma match_set_all_empty_clauses:
  "match_set corpus (replicate (Suc n) []) =
     Inr \<lparr>set_v = DenseSet 0 (int (length (tokens corpus)) - 1), complement = False\<rparr>"
proof -
  let ?D = "\<lparr>set_v = DenseSet 0 (int (length (tokens corpus)) - 1), complement = False\<rparr>"
  let ?q = "replicate (Suc n) ([] :: Clause)"
  have "collect_sets (\<lambda>(clause, shift). match_set_clause corpus clause (int shift))
          (zip ?q [0..<length ?q]) = Inr (map (\<lambda>_. ?D) (zip ?q [0..<length ?q]))"
    by (rule collect_sets_all_Inr) (auto simp: match_set_clause_def dest!: set_zip_leftD)
  moreover have "map (\<lambda>_. ?D) (zip ?q [0..<length ?q]) = replicate (Suc n) ?D"
    by (simp only: map_replicate_const length_zip length_replicate length_upt) simp
  ultimately show ?thesis
    using intersect_with_plan_dense [of n "int (length (tokens corpus)) - 1"]
    by (simp add: match_set_def del: replicate_Suc upt_Suc)
qed

lemma match2_all_empty_clauses:
  "match2 corpus (replicate (Suc n) []) =
     Inr (map (\<lambda>i. \<lparr>sentence = sentence_index_of corpus i, pos = i, len = 1\<rparr>)
            [0..int (length (tokens corpus)) - 1])"
  by (simp add: match2_def match_set_all_empty_clauses del: replicate_Suc)

text \<open>
  Claim C1. A returned match should carry the number of clauses of the query as its length.
  For the query of two empty clauses the final set is a \<^verbatim>\<open>DenseSet\<close>, and that branch of
  \<^verbatim>\<open>match2\<close> emits length 1; only the \<^verbatim>\<open>ExplicitSet\<close> branch writes \<^verbatim>\<open>query.size()\<close>.
  The first version \<^verbatim>\<open>match\<close> emits length 2 on the same input. By
  \<open>match2_all_empty_clauses\<close> the same happens for every corpus and every number of empty
  clauses.
\<close>

theorem match2_dense_branch_emits_len_1:
  "match2 example_corpus [[], []] =
     Inr [\<lparr>sentence = 0, pos = 0, len = 1\<rparr>, \<lparr>sentence = 0, pos = 1, len = 1\<rparr>,
          \<lparr>sentence = 1, pos = 2, len = 1\<rparr>] \<and>
   match example_corpus [[], []] = Inr [\<lparr>sentence = 0, pos = 0, len = 2\<rparr>]"
  by code_simp

text \<open>
  Claim C2. A match should lie within its sentence and within the corpus. In the three-token
  corpus, whose sentences start at 0 and 2, the query \<open>[word=4] []\<close> yields a match of
  length 2 at position 1, which runs into the second sentence, and \<open>[word=8] []\<close> yields a
  match of length 2 at position 2, which runs past the last token. The first version
  \<^verbatim>\<open>match\<close>, which tests \<^verbatim>\<open>i + j >= end\<close>, returns neither.
\<close>

theorem match2_emits_spans_across_sentence_and_corpus_end:
  "match2 example_corpus [[word_is 4], []] = Inr [\<lparr>sentence = 0, pos = 1, len = 2\<rparr>] \<and>
   match2 example_corpus [[word_is 8], []] = Inr [\<lparr>sentence = 1, pos = 2, len = 2\<rparr>] \<and>
   match example_corpus [[word_is 4], []] = Inr [] \<and>
   match example_corpus [[word_is 8], []] = Inr [] \<and>
   sentences example_corpus = [0, 2] \<and> length (tokens example_corpus) = 3"
  by code_simp

text \<open>
  Claim C3. The empty query should give the empty result. The value \<^verbatim>\<open>{}\<close> returned by
  \<^verbatim>\<open>match_set\<close> is the interval from 0 to 0, so for every corpus \<^verbatim>\<open>match2\<close> emits one match
  at position 0; in the three-token corpus it is attributed to sentence 0.
\<close>

theorem empty_query_yields_position_0:
  "match_set corpus [] = Inr \<lparr>set_v = DenseSet 0 0, complement = False\<rparr> \<and>
   match2 corpus [] = Inr [\<lparr>sentence = sentence_index_of corpus 0, pos = 0, len = 1\<rparr>] \<and>
   match2 example_corpus [] = Inr [\<lparr>sentence = 0, pos = 0, len = 1\<rparr>]"
proof (intro conjI)
  show "match_set corpus [] = Inr \<lparr>set_v = DenseSet 0 0, complement = False\<rparr>"
    by (simp add: match_set_def)
  show "match2 corpus [] = Inr [\<lparr>sentence = sentence_index_of corpus 0, pos = 0, len = 1\<rparr>]"
    by (simp add: match2_def match_set_def)
  show "match2 example_corpus [] = Inr [\<lparr>sentence = 0, pos = 0, len = 1\<rparr>]"
    by code_simp
qed

section \<open>The set algebra\<close>

subsection \<open>What the operations compute on sorted inputs\<close>

text \<open>
  On a sorted range \<^verbatim>\<open>std::binary_search\<close> decides membership. On a strictly ascending
  \<open>A\<close> and a sorted \<open>B\<close> the linear merges select the elements of \<open>A\<close> whose shifted value
  is (is not) in \<open>B\<close> and emit them shifted; the binary probes select the same elements and
  emit them as they are. So the two families agree when the left shift is 0.
\<close>

lemma binary_search_dropWhile:
  "binary_search B v = (case dropWhile (\<lambda>b. b < v) B of [] \<Rightarrow> False | b # _ \<Rightarrow> \<not> v < b)"
  by (simp add: binary_search_def lower_bound_def dropWhile_eq_drop)

lemma binary_search_sorted: "sorted B \<Longrightarrow> binary_search B v \<longleftrightarrow> v \<in> set B"
proof (induction B)
  case Nil
  then show ?case by (simp add: binary_search_dropWhile)
next
  case (Cons b B)
  then have ih: "binary_search B v \<longleftrightarrow> v \<in> set B" and ge: "\<forall>x \<in> set B. b \<le> x" by auto
  show ?case
  proof (cases "b < v")
    case True
    then have "binary_search (b # B) v = binary_search B v"
      by (simp add: binary_search_dropWhile)
    with ih True show ?thesis by auto
  next
    case False
    then have "binary_search (b # B) v \<longleftrightarrow> v = b"
      by (auto simp: binary_search_dropWhile)
    moreover have "v \<in> set B \<Longrightarrow> v = b" using ge False by force
    ultimately show ?thesis by auto
  qed
qed

lemma intersect_two_sets_sorted:
  "sorted_wrt (<) A \<Longrightarrow> sorted B \<Longrightarrow>
   intersect_two_sets A B A_shift B_shift =
     map (\<lambda>a. a - A_shift) (filter (\<lambda>a. a - A_shift + B_shift \<in> set B) A)"
proof (induction A B A_shift B_shift rule: intersect_two_sets.induct)
  case (1 a A b B A_shift B_shift)
  from "1.prems" have sA: "sorted_wrt (<) A" and sB: "sorted B"
    and gtA: "\<forall>x \<in> set A. a < x" and geB: "\<forall>y \<in> set B. b \<le> y" by auto
  show ?case
  proof (cases "a - A_shift < b - B_shift")
    case True
    then have "a - A_shift + B_shift \<notin> set (b # B)" using geB by force
    with True "1.IH"(1) [OF True sA "1.prems"(2)] show ?thesis by simp
  next
    case False
    show ?thesis
    proof (cases "b - B_shift < a - A_shift")
      case True
      have "filter (\<lambda>x. x - A_shift + B_shift \<in> set (b # B)) (a # A) =
            filter (\<lambda>x. x - A_shift + B_shift \<in> set B) (a # A)"
        using True gtA by (intro filter_cong) force+
      with False True "1.IH"(2) [OF False True "1.prems"(1) sB] show ?thesis by simp
    next
      case eq: False
      with False have e: "a - A_shift + B_shift = b" by simp
      have "filter (\<lambda>x. x - A_shift + B_shift \<in> set (b # B)) A =
            filter (\<lambda>x. x - A_shift + B_shift \<in> set B) A"
        using e gtA by (intro filter_cong) force+
      with False eq e "1.IH"(3) [OF False eq sA sB] show ?thesis by simp
    qed
  qed
qed simp_all

lemma diff_two_sets_sorted:
  "sorted_wrt (<) A \<Longrightarrow> sorted B \<Longrightarrow>
   diff_two_sets A B A_shift B_shift =
     map (\<lambda>a. a - A_shift) (filter (\<lambda>a. a - A_shift + B_shift \<notin> set B) A)"
proof (induction A B A_shift B_shift rule: diff_two_sets.induct)
  case (1 a A b B A_shift B_shift)
  from "1.prems" have sA: "sorted_wrt (<) A" and sB: "sorted B"
    and gtA: "\<forall>x \<in> set A. a < x" and geB: "\<forall>y \<in> set B. b \<le> y" by auto
  show ?case
  proof (cases "a - A_shift < b - B_shift")
    case True
    then have "a - A_shift + B_shift \<notin> set (b # B)" using geB by force
    with True "1.IH"(1) [OF True sA "1.prems"(2)] show ?thesis by simp
  next
    case False
    show ?thesis
    proof (cases "b - B_shift < a - A_shift")
      case True
      have "filter (\<lambda>x. x - A_shift + B_shift \<notin> set (b # B)) (a # A) =
            filter (\<lambda>x. x - A_shift + B_shift \<notin> set B) (a # A)"
        using True gtA by (intro filter_cong) force+
      with False True "1.IH"(2) [OF False True "1.prems"(1) sB] show ?thesis by simp
    next
      case eq: False
      with False have e: "a - A_shift + B_shift = b" by simp
      have "filter (\<lambda>x. x - A_shift + B_shift \<notin> set (b # B)) A =
            filter (\<lambda>x. x - A_shift + B_shift \<notin> set B) A"
        using e gtA by (intro filter_cong) force+
      with False eq e "1.IH"(3) [OF False eq sA sB] show ?thesis by simp
    qed
  qed
qed simp_all

lemma binary_intersect_two_sets_sorted:
  "sorted B \<Longrightarrow>
   binary_intersect_two_sets A B A_shift B_shift = filter (\<lambda>a. a - A_shift + B_shift \<in> set B) A"
  by (simp add: binary_intersect_two_sets_def binary_search_sorted)

lemma binary_diff_two_sets_sorted:
  "sorted B \<Longrightarrow>
   binary_diff_two_sets A B A_shift B_shift = filter (\<lambda>a. a - A_shift + B_shift \<notin> set B) A"
  by (simp add: binary_diff_two_sets_def binary_search_sorted)

lemma merge_is_shifted_probe:
  assumes "sorted_wrt (<) A" "sorted B"
  shows "intersect_two_sets A B A_shift B_shift =
           map (\<lambda>a. a - A_shift) (binary_intersect_two_sets A B A_shift B_shift)"
    and "diff_two_sets A B A_shift B_shift =
           map (\<lambda>a. a - A_shift) (binary_diff_two_sets A B A_shift B_shift)"
  using assms
  by (simp_all add: intersect_two_sets_sorted diff_two_sets_sorted
      binary_intersect_two_sets_sorted binary_diff_two_sets_sorted)

lemma merge_equals_probe_unshifted:
  assumes "sorted_wrt (<) A" "sorted B"
  shows "intersect_two_sets A B 0 B_shift = binary_intersect_two_sets A B 0 B_shift"
    and "diff_two_sets A B 0 B_shift = binary_diff_two_sets A B 0 B_shift"
  using merge_is_shifted_probe [OF assms, of 0 B_shift] by simp_all

lemma intersection_II_unswapped:
  assumes "sorted_wrt (<) X" "sorted Y" "\<not> length X > length Y * 10"
  shows "intersection_II X 0 Y d = filter (\<lambda>x. x + d \<in> set Y) X"
  using assms
  by (simp add: intersection_II_def intersect_two_sets_sorted binary_intersect_two_sets_sorted)

lemma intersection_II_swapped:
  assumes "sorted X" "length X > length Y * 10"
  shows "intersection_II X 0 Y d = filter (\<lambda>y. y - d \<in> set X) Y"
  using assms
  by (simp add: intersection_II_def binary_intersect_two_sets_sorted)

lemma intersection_ID_filter:
  "intersection_ID A A_shift B_first B_last =
     filter (\<lambda>e. B_first \<le> e \<and> e \<le> B_last) (map (\<lambda>i. i - A_shift) A)"
  by (induction A) (auto simp: intersection_ID_def)

lemma intersection_DE_sorted:
  "sorted B \<Longrightarrow> intersection_DE A_first A_last B = filter (\<lambda>i. i \<le> A_last) B"
proof (induction B)
  case Nil
  then show ?case by (simp add: intersection_DE_def)
next
  case (Cons b B)
  then have ih: "intersection_DE A_first A_last B = filter (\<lambda>i. i \<le> A_last) B"
    and ge: "\<forall>x \<in> set B. b \<le> x" by auto
  show ?case
  proof (cases "b \<le> A_last")
    case True
    with ih show ?thesis by (simp add: intersection_DE_def)
  next
    case False
    with ge have "filter (\<lambda>i. i \<le> A_last) B = []" by (auto simp: filter_empty_conv)
    with False show ?thesis by (simp add: intersection_DE_def)
  qed
qed

lemma difference_DD_disjoint:
  "A_last < B_first \<or> B_last < A_first \<Longrightarrow>
   difference_DD A_first A_last B_first B_last = (A_first, A_last)"
  by (auto simp: difference_DD_def)

lemma diff_dense_x_sorted:
  "sorted_wrt (<) B \<Longrightarrow>
   diff_dense_x_loop p l B B_shift = filter (\<lambda>i. i + B_shift \<notin> set B) [p..l]"
proof (induction p l B B_shift rule: diff_dense_x_loop.induct)
  case (1 p l B_shift)
  show ?case
  proof (cases "p \<le> l")
    case True
    with "1.IH" [OF True] show ?thesis by (subst diff_dense_x_loop.simps) (simp add: upto_rec1)
  next
    case False
    then show ?thesis by simp
  qed
next
  case (2 p l b B B_shift)
  from "2.prems" have sB: "sorted_wrt (<) B" and gt: "\<forall>y \<in> set B. b < y" by auto
  show ?case
  proof (cases "p \<le> l")
    case le: True
    show ?thesis
    proof (cases "p < b - B_shift")
      case True
      then have "p + B_shift \<notin> set (b # B)" using gt by force
      with le True "2.IH"(1) [OF le True "2.prems"] show ?thesis
        by (subst diff_dense_x_loop.simps) (simp add: upto_rec1)
    next
      case False
      show ?thesis
      proof (cases "p > b - B_shift")
        case True
        have "filter (\<lambda>i. i + B_shift \<notin> set (b # B)) [p..l] =
              filter (\<lambda>i. i + B_shift \<notin> set B) [p..l]"
          using True by (intro filter_cong) auto
        with le False True "2.IH"(2) [OF le False True sB] show ?thesis
          by (subst diff_dense_x_loop.simps) simp
      next
        case eq: False
        with False have e: "p + B_shift = b" by simp
        have "filter (\<lambda>i. i + B_shift \<notin> set (b # B)) [p + 1..l] =
              filter (\<lambda>i. i + B_shift \<notin> set B) [p + 1..l]"
          using e by (intro filter_cong) auto
        with le False eq e "2.IH"(3) [OF le False eq sB] show ?thesis
          by (subst diff_dense_x_loop.simps) (simp add: upto_rec1)
      qed
    qed
  next
    case False
    then show ?thesis by simp
  qed
qed

text \<open>
  On two strictly ascending explicit sets the pairwise operations compute the intersection
  and the difference of the sets, so there all four rows of the complement table give the
  sets the table names.
\<close>

lemma set_intersection_EE:
  assumes "sorted_wrt (<) A" "sorted_wrt (<) B"
  shows "set (intersection_EE A B) = set A \<inter> set B"
proof -
  have sA: "sorted A" and sB: "sorted B"
    using assms by (simp_all add: strict_sorted_imp_sorted)
  show ?thesis
    using assms sA sB
    by (auto simp: intersection_EE_def binary_intersect_two_sets_sorted
        intersect_two_sets_sorted)
qed

lemma set_difference_EE:
  assumes "sorted_wrt (<) A" "sorted_wrt (<) B"
  shows "set (difference_EE A B) = set A - set B"
proof -
  have sB: "sorted B" using assms by (simp add: strict_sorted_imp_sorted)
  show ?thesis
    using assms sB
    by (auto simp: difference_EE_def binary_diff_two_sets_sorted diff_two_sets_sorted)
qed

lemma intersection_explicit_sorted:
  assumes "sorted_wrt (<) a" "sorted_wrt (<) b"
  shows "elements (set_v (intersection \<lparr>set_v = ExplicitSet a, complement = ca\<rparr>
                                       \<lparr>set_v = ExplicitSet b, complement = cb\<rparr>)) =
           (if ca \<and> cb then set a \<inter> set b
            else if ca then set b - set a
            else if cb then set a - set b
            else set a \<inter> set b)"
    and "complement (intersection \<lparr>set_v = ExplicitSet a, complement = ca\<rparr>
                                  \<lparr>set_v = ExplicitSet b, complement = cb\<rparr>) = (ca \<and> cb)"
  using assms
  by (simp_all add: intersection_def set_intersection_EE set_difference_EE)

subsection \<open>The claims\<close>

text \<open>
  Claim C4. With \<open>X\<close> at shift 0 and \<open>Y\<close> at shift \<open>d\<close> the intersection should be
  \<open>{x \<in> X. x + d \<in> Y}\<close>. When \<open>X\<close> is more than ten times larger than \<open>Y\<close>, the binary
  probe is driven by \<open>Y\<close> and emits the elements of \<open>Y\<close> unshifted: for \<open>X = 0..10\<close>,
  \<open>Y = {6}\<close> and \<open>d = 1\<close> the result is 6, not 5.
\<close>

theorem intersection_II_swapped_probe_emits_right_coordinates:
  "intersection_II [0, 1, 2, 3, 4, 5, 6, 7, 8, 9, 10] 0 [6] 1 = [6] \<and>
   filter (\<lambda>x. x + 1 \<in> set [6]) [0, 1, 2, 3, 4, 5, 6, 7, 8, 9, 10 :: int] = [5]"
  by code_simp

text \<open>
  Claim C5. Linear merge and binary probe should agree. The merges emit \<open>a - A_shift\<close>, the
  probes emit \<open>a\<close>: with \<open>A = [5]\<close> at shift 1 they differ, for the intersection with \<open>[4]\<close>
  and for the difference with \<open>[7]\<close>.
\<close>

theorem merge_and_probe_differ_under_left_shift:
  "intersect_two_sets [5] [4] 1 0 = [4] \<and> binary_intersect_two_sets [5] [4] 1 0 = [5] \<and>
   diff_two_sets [5] [7] 1 0 = [4] \<and> binary_diff_two_sets [5] [7] 1 0 = [5]"
  by code_simp

text \<open>
  Claim C6. The intersection of two \<^verbatim>\<open>MatchSet\<close>s should hold \<open>a \<inter> b\<close>, \<open>a - b\<close>,
  \<open>b - a\<close> or \<open>a \<inter> b\<close> of the underlying sets, by the complement bits. The bits and the
  choice of operation follow the table, but the operations applied do not always compute
  those sets. With \<open>a = [2, 5]\<close> and \<open>b = {0, 3, 7}\<close>, rows (0,0) and (1,1) hold \<open>{0, 3}\<close>
  where \<open>a \<inter> b = {3}\<close>. With \<open>a = [0, 5]\<close> and \<open>b = [3, 8]\<close>, row (0,1) holds \<open>[0, 3]\<close>
  where \<open>a - b = {0, 1, 2}\<close>, and row (1,0) holds \<open>[0, 0]\<close> where \<open>b - a = {6, 7, 8}\<close>.
\<close>

theorem intersection_rows_diverge_from_underlying_sets:
  "intersection \<lparr>set_v = DenseSet 2 5, complement = False\<rparr>
                \<lparr>set_v = ExplicitSet [0, 3, 7], complement = False\<rparr> =
     \<lparr>set_v = ExplicitSet [0, 3], complement = False\<rparr> \<and>
   intersection \<lparr>set_v = DenseSet 0 5, complement = False\<rparr>
                \<lparr>set_v = DenseSet 3 8, complement = True\<rparr> =
     \<lparr>set_v = DenseSet 0 3, complement = False\<rparr> \<and>
   intersection \<lparr>set_v = DenseSet 0 5, complement = True\<rparr>
                \<lparr>set_v = DenseSet 3 8, complement = False\<rparr> =
     \<lparr>set_v = DenseSet 0 0, complement = False\<rparr> \<and>
   intersection \<lparr>set_v = DenseSet 2 5, complement = True\<rparr>
                \<lparr>set_v = ExplicitSet [0, 3, 7], complement = True\<rparr> =
     \<lparr>set_v = ExplicitSet [0, 3], complement = True\<rparr> \<and>
   elements (DenseSet 2 5) \<inter> elements (ExplicitSet [0, 3, 7]) = {3} \<and>
   elements (ExplicitSet [0, 3]) = {0, 3} \<and>
   elements (DenseSet 0 5) - elements (DenseSet 3 8) = {0, 1, 2} \<and>
   elements (DenseSet 0 3) = {0, 1, 2, 3} \<and>
   elements (DenseSet 3 8) - elements (DenseSet 0 5) = {6, 7, 8} \<and>
   elements (DenseSet 0 0) = {0}"
proof (intro conjI)
  show "intersection \<lparr>set_v = DenseSet 2 5, complement = False\<rparr>
                \<lparr>set_v = ExplicitSet [0, 3, 7], complement = False\<rparr> =
     \<lparr>set_v = ExplicitSet [0, 3], complement = False\<rparr>"
    by code_simp
  show "intersection \<lparr>set_v = DenseSet 0 5, complement = False\<rparr>
                \<lparr>set_v = DenseSet 3 8, complement = True\<rparr> =
     \<lparr>set_v = DenseSet 0 3, complement = False\<rparr>"
    by code_simp
  show "intersection \<lparr>set_v = DenseSet 0 5, complement = True\<rparr>
                \<lparr>set_v = DenseSet 3 8, complement = False\<rparr> =
     \<lparr>set_v = DenseSet 0 0, complement = False\<rparr>"
    by code_simp
  show "intersection \<lparr>set_v = DenseSet 2 5, complement = True\<rparr>
                \<lparr>set_v = ExplicitSet [0, 3, 7], complement = True\<rparr> =
     \<lparr>set_v = ExplicitSet [0, 3], complement = True\<rparr>"
    by code_simp
  show "elements (DenseSet 2 5) \<inter> elements (ExplicitSet [0, 3, 7]) = {3}"
    by auto
  show "elements (ExplicitSet [0, 3]) = {0, 3}"
    by auto
  show "elements (DenseSet 0 5) - elements (DenseSet 3 8) = {0, 1, 2}"
    by auto
  show "elements (DenseSet 0 3) = {0, 1, 2, 3}"
    by auto
  show "elements (DenseSet 3 8) - elements (DenseSet 0 5) = {6, 7, 8}"
    by auto
  show "elements (DenseSet 0 0) = {0}"
    by auto
qed

text \<open>
  Claim C7. \<open>[0, 5] - [3, 8]\<close> should be \<open>[0, 2]\<close> and is \<open>[0, 3]\<close>; \<open>[3, 8] - [0, 5]\<close> should
  be \<open>[6, 8]\<close> and is \<open>[0, 0]\<close>; \<open>[0, 9] - [3, 5]\<close> should be the two intervals \<open>[0, 2]\<close> and
  \<open>[6, 9]\<close> and is \<open>[0, 3]\<close>.
\<close>

theorem difference_DD_overlap_results:
  "difference_DD 0 5 3 8 = (0, 3) \<and> difference_DD 3 8 0 5 = (0, 0) \<and>
   difference_DD 0 9 3 5 = (0, 3)"
  by code_simp

text \<open>
  Claim C8. The intersection of \<open>[2, 5]\<close> with the explicit set \<open>{0, 3, 7}\<close> should be
  \<open>{3}\<close>; the loop stops at the first element above \<^verbatim>\<open>A.last\<close> and never compares with
  \<^verbatim>\<open>A.first\<close>, so 0 is kept. The index-view overload compares with both bounds.
\<close>

theorem intersection_DE_keeps_elements_below_first:
  "intersection_DE 2 5 [0, 3, 7] = [0, 3] \<and> intersection_ID [0, 3, 7] 0 2 5 = [3]"
  by code_simp

section \<open>Parsing\<close>

lemma inside_from_Nil [simp]: "inside_from b [] = b"
  by (simp add: inside_from_def)

lemma inside_from_Cons:
  "inside_from b (c # p) =
     (if c = CHR ''['' then inside_from True p
      else if c = CHR '']'' then inside_from False p
      else inside_from b p)"
  by (cases "rev (filter is_bracket p)") (auto simp: inside_from_def is_bracket_def)

lemma ex_split_Cons:
  "(\<exists>p r. c # t = p @ x # r \<and> Q p) \<longleftrightarrow> (c = x \<and> Q []) \<or> (\<exists>p r. t = p @ x # r \<and> Q (c # p))"
  (is "?L \<longleftrightarrow> ?R")
proof
  assume ?L
  then obtain p r where eq: "c # t = p @ x # r" and q: "Q p" by blast
  show ?R
  proof (cases p)
    case Nil
    with eq q show ?thesis by simp
  next
    case (Cons a p')
    with eq q have "t = p' @ x # r" "Q (c # p')" by simp_all
    then show ?thesis by blast
  qed
next
  assume ?R
  then show ?L
  proof
    assume "c = x \<and> Q []"
    then have "c # t = [] @ x # t \<and> Q []" by simp
    then show ?L by blast
  next
    assume "\<exists>p r. t = p @ x # r \<and> Q (c # p)"
    then obtain p r where "t = p @ x # r" "Q (c # p)" by blast
    then have "c # t = (c # p) @ x # r \<and> Q (c # p)" by simp
    then show ?L by blast
  qed
qed

lemma malformed_from_Nil [simp]: "malformed_from b [] = b"
  by (simp add: malformed_from_def)

lemma malformed_from_Cons:
  "malformed_from b (c # t) =
     (if c = CHR ''['' then b \<or> malformed_from True t
      else if c = CHR '']'' then \<not> b \<or> malformed_from False t
      else malformed_from b t)"
  unfolding malformed_from_def ex_split_Cons
  by (auto simp: inside_from_Cons)

lemma split_clauses_loop_error:
  "(\<exists>e. split_clauses_loop s clauses sub b = Inl e) \<longleftrightarrow> malformed_from b s"
proof (induction s arbitrary: clauses sub b)
  case Nil
  then show ?case by simp
next
  case (Cons c t)
  then show ?case by (simp add: malformed_from_Cons)
qed

lemma loop_gap:
  "bracket_free g \<Longrightarrow>
   split_clauses_loop (g @ rest) clauses sub False = split_clauses_loop rest clauses sub False"
  by (induction g) (auto simp: bracket_free_def is_bracket_def split: if_splits)

lemma loop_body:
  "bracket_free body \<Longrightarrow>
   split_clauses_loop (body @ rest) clauses sub True = split_clauses_loop rest clauses (sub @ body) True"
  by (induction body arbitrary: sub) (auto simp: bracket_free_def is_bracket_def split: if_splits)

lemma loop_render:
  "\<forall>(g, body) \<in> set cs. bracket_free g \<and> bracket_free body \<Longrightarrow> bracket_free tail \<Longrightarrow>
   split_clauses_loop (render cs @ tail) clauses sub False = Inr (clauses @ map snd cs)"
proof (induction cs arbitrary: clauses sub)
  case Nil
  then show ?case using loop_gap [of tail "[]" clauses sub] by simp
next
  case (Cons gb cs)
  obtain g body where gb: "gb = (g, body)" by (cases gb)
  from Cons.prems gb have g: "bracket_free g" and b: "bracket_free body"
    and rest: "\<forall>(g, body) \<in> set cs. bracket_free g \<and> bracket_free body" by auto
  have "split_clauses_loop (render (gb # cs) @ tail) clauses sub False
      = split_clauses_loop (CHR ''['' # body @ CHR '']'' # render cs @ tail) clauses sub False"
    using loop_gap [OF g] by (simp add: gb)
  also have "\<dots> = split_clauses_loop (body @ CHR '']'' # render cs @ tail) clauses [] True"
    by simp
  also have "\<dots> = split_clauses_loop (CHR '']'' # render cs @ tail) clauses body True"
    using loop_body [OF b, of _ clauses "[]"] by simp
  also have "\<dots> = split_clauses_loop (render cs @ tail) (clauses @ [body]) body False"
    by simp
  also have "\<dots> = Inr ((clauses @ [body]) @ map snd cs)"
    using Cons.IH [OF rest Cons.prems(2)] by blast
  finally show ?case by (simp add: gb)
qed

text \<open>
  Claim C10. \<^verbatim>\<open>split_clauses\<close> raises exactly when the string has a \<open>[\<close> while inside a
  clause, a \<open>]\<close> while outside one, or ends inside a clause. Text outside the brackets is
  dropped: for any bracket-free gaps, bodies and trailing text, the result is the list of the
  bodies, whatever the gaps are.
\<close>

theorem split_clauses_errors_and_stray_text:
  "((\<exists>e. split_clauses s = Inl e) \<longleftrightarrow>
      (\<exists>p r. s = p @ CHR ''['' # r \<and> inside p) \<or>
      (\<exists>p r. s = p @ CHR '']'' # r \<and> \<not> inside p) \<or>
      inside s) \<and>
   ((\<forall>(gap, body) \<in> set cs. bracket_free gap \<and> bracket_free body) \<and> bracket_free tail \<longrightarrow>
      split_clauses (render cs @ tail) = Inr (map snd cs))"
proof
  show "(\<exists>e. split_clauses s = Inl e) \<longleftrightarrow>
      (\<exists>p r. s = p @ CHR ''['' # r \<and> inside p) \<or>
      (\<exists>p r. s = p @ CHR '']'' # r \<and> \<not> inside p) \<or>
      inside s"
    using split_clauses_loop_error [of s "[]" "[]" False]
    by (simp add: split_clauses_def malformed_from_def inside_def)
  show "(\<forall>(gap, body) \<in> set cs. bracket_free gap \<and> bracket_free body) \<and> bracket_free tail \<longrightarrow>
      split_clauses (render cs @ tail) = Inr (map snd cs)"
    using loop_render [of cs tail "[]" "[]"] by (simp add: split_clauses_def)
qed

theorem split_clauses_errors_and_stray_text_witness:
  "split_clauses ''x [a=1] y [] z'' = Inr [''a=1'', []] \<and>
   (\<exists>e. split_clauses ''[a [b]'' = Inl e) \<and> (\<exists>e. split_clauses ''a] [b]'' = Inl e) \<and>
   (\<exists>e. split_clauses ''[a] [b'' = Inl e)"
proof -
  have "split_clauses (render [(''x '', ''a=1''), ('' y '', [])] @ '' z'') = Inr (map snd [(''x '', ''a=1''), ('' y '', [])])"
    using split_clauses_errors_and_stray_text [of "[]" "[(''x '', ''a=1''), ('' y '', [])]" "'' z''"]
    by (simp add: bracket_free_def is_bracket_def)
  moreover have "(\<exists>e. split_clauses ''[a [b]'' = Inl e)"
    by (simp add: split_clauses_def)
  moreover have "(\<exists>e. split_clauses ''a] [b]'' = Inl e)"
    by (simp add: split_clauses_def)
  moreover have "(\<exists>e. split_clauses ''[a] [b'' = Inl e)"
    by (simp add: split_clauses_def)
  ultimately show ?thesis by simp
qed


section \<open>The dictionary\<close>

lemma first_occurrences_distinct: "distinct xs \<Longrightarrow> first_occurrences xs = xs"
  by (simp add: first_occurrences_def distinct_remdups_id)

lemma first_occurrences_snoc:
  "distinct xs \<Longrightarrow> first_occurrences (xs @ [s]) = (if s \<in> set xs then xs else xs @ [s])"
proof -
  assume d: "distinct xs"
  have "remdups (s # rev xs) = (if s \<in> set xs then rev xs else s # rev xs)"
    using d by simp
  then show ?thesis by (simp add: first_occurrences_def split: if_splits)
qed

lemma first_occurrences_absorb:
  "first_occurrences (first_occurrences a @ b) = first_occurrences (a @ b)"
  by (simp add: first_occurrences_def remdups_append2)

lemma distinct_first_occurrences [simp]: "distinct (first_occurrences ss)"
  by (simp add: first_occurrences_def)

lemma set_first_occurrences [simp]: "set (first_occurrences ss) = set ss"
  by (simp add: first_occurrences_def)

lemma length_first_occurrences: "length (first_occurrences ss) = card (set ss)"
  by (metis distinct_card distinct_first_occurrences set_first_occurrences)

lemma dict_inv_empty: "dict_inv empty_corpus"
  by (simp add: dict_inv_def empty_corpus_def)

lemma dict_inv_dom: "dict_inv c \<Longrightarrow> dom (string2index c) = set (index2string c)"
  by (simp add: dict_inv_def dom_map_of_zip)

lemma dict_inv_lookup:
  assumes "dict_inv c" "k < length (index2string c)"
  shows "string2index c (index2string c ! k) = Some (of_nat k)"
proof -
  let ?xs = "index2string c"
  let ?ys = "map of_nat [0..<length ?xs] :: u32 list"
  have "map_of (zip ?xs ?ys) (?xs ! k) = Some (?ys ! k)"
    using assms by (intro map_of_zip_nth) (simp_all add: dict_inv_def)
  then show ?thesis using assms by (simp add: dict_inv_def)
qed

lemma insert_and_get_index_step:
  assumes inv: "dict_inv c" and step: "insert_and_get_index c s = (i, c')"
  shows "dict_inv c'"
    and "index2string c' = first_occurrences (index2string c @ [s])"
    and "string2index c' s = Some i"
proof -
  let ?xs = "index2string c"
  have d: "distinct ?xs" using inv by (simp add: dict_inv_def)
  have "dict_inv c' \<and> index2string c' = first_occurrences (?xs @ [s]) \<and> string2index c' s = Some i"
  proof (cases "string2index c s")
    case (Some v)
    then have "s \<in> set ?xs" using dict_inv_dom [OF inv] by auto
    with Some step inv d show ?thesis
      by (auto simp: insert_and_get_index_def first_occurrences_snoc)
  next
    case None
    then have notin: "s \<notin> set ?xs" using dict_inv_dom [OF inv] by auto
    from None step have c': "c' = c\<lparr>index2string := ?xs @ [s],
        string2index := (string2index c)(s \<mapsto> of_nat (length ?xs))\<rparr>"
      and i: "i = of_nat (length ?xs)"
      by (auto simp: insert_and_get_index_def Let_def)
    have len: "length ?xs = length (map of_nat [0..<length ?xs] :: u32 list)" by simp
    have none: "map_of (zip ?xs (map of_nat [0..<length ?xs] :: u32 list)) x = None"
      if "x \<notin> set ?xs" for x
      using that map_of_zip_is_None [OF len] by blast
    have "map_of (zip (?xs @ [s]) (map of_nat [0..<length (?xs @ [s])])) =
          (map_of (zip ?xs (map of_nat [0..<length ?xs])))(s \<mapsto> (of_nat (length ?xs) :: u32))"
      using notin by (auto simp: fun_eq_iff map_add_def none split: option.splits)
    then have "dict_inv c'"
      using inv notin d unfolding c' by (simp add: dict_inv_def)
    then show ?thesis
      using notin d by (simp add: c' i first_occurrences_snoc)
  qed
  then show "dict_inv c'" "index2string c' = first_occurrences (?xs @ [s])"
    "string2index c' s = Some i" by simp_all
qed

lemma insert_and_get_index_mono:
  assumes "insert_and_get_index c s = (i, c')" "string2index c t = Some v"
  shows "string2index c' t = Some v"
  using assms by (auto simp: insert_and_get_index_def Let_def split: option.splits)

lemma insert_all_mono:
  "insert_all c ss = (ids, c') \<Longrightarrow> string2index c t = Some v \<Longrightarrow> string2index c' t = Some v"
proof (induction ss arbitrary: c ids c')
  case Nil
  then show ?case by simp
next
  case (Cons s ss)
  obtain i c1 where st: "insert_and_get_index c s = (i, c1)" by (cases "insert_and_get_index c s")
  obtain ids1 c2 where rest: "insert_all c1 ss = (ids1, c2)" by (cases "insert_all c1 ss")
  from Cons.prems(1) st rest have "c' = c2" by simp
  with Cons.IH [OF rest insert_and_get_index_mono [OF st Cons.prems(2)]] show ?case by simp
qed

lemma insert_all_inv:
  "dict_inv c \<Longrightarrow> insert_all c ss = (ids, c') \<Longrightarrow>
   dict_inv c' \<and> index2string c' = first_occurrences (index2string c @ ss) \<and>
   map (string2index c') ss = map Some ids"
proof (induction ss arbitrary: c ids c')
  case Nil
  then show ?case by (simp add: first_occurrences_distinct dict_inv_def)
next
  case (Cons s ss)
  obtain i c1 where st: "insert_and_get_index c s = (i, c1)" by (cases "insert_and_get_index c s")
  obtain ids1 c2 where rest: "insert_all c1 ss = (ids1, c2)" by (cases "insert_all c1 ss")
  from Cons.prems(2) st rest have eqs: "c' = c2" "ids = i # ids1" by simp_all
  note step = insert_and_get_index_step [OF Cons.prems(1) st]
  from Cons.IH [OF step(1) rest]
  have ih: "dict_inv c2" "index2string c2 = first_occurrences (index2string c1 @ ss)"
    "map (string2index c2) ss = map Some ids1" by simp_all
  have "index2string c2 = first_occurrences (index2string c @ s # ss)"
    using ih(2) step(2) first_occurrences_absorb [of "index2string c @ [s]" ss] by simp
  moreover have "string2index c2 s = Some i"
    using insert_all_mono [OF rest step(3)] .
  ultimately show ?case using ih eqs by simp
qed

lemma insert_all_empty_corpus:
  assumes "insert_all empty_corpus ss = (ids, c)"
  shows "dict_inv c" "index2string c = first_occurrences ss" "map (string2index c) ss = map Some ids"
  using insert_all_inv [OF dict_inv_empty assms] by (simp_all add: empty_corpus_def)


lemma insert_all_rank:
  assumes run: "insert_all empty_corpus ss = (ids, c)" and i: "i < length ss"
  shows "\<exists>k < card (set ss). index2string c ! k = ss ! i \<and> ids ! i = of_nat k"
proof -
  note facts = insert_all_empty_corpus [OF run]
  have len: "length (index2string c) = card (set ss)"
    by (simp add: facts(2) length_first_occurrences)
  have "ss ! i \<in> set (index2string c)" using i by (simp add: facts(2))
  then obtain k where k: "k < length (index2string c)" "index2string c ! k = ss ! i"
    by (auto simp: in_set_conv_nth)
  have "string2index c (ss ! i) = Some (of_nat k)"
    using dict_inv_lookup [OF facts(1) k(1)] k(2) by simp
  moreover have "string2index c (ss ! i) = Some (ids ! i)"
  proof -
    have "map (string2index c) ss ! i = map Some ids ! i" by (simp add: facts(3))
    moreover have "length ids = length ss"
      using arg_cong [OF facts(3), of length] by simp
    ultimately show ?thesis using i by simp
  qed
  ultimately have "ids ! i = of_nat k" by simp
  with k len show ?thesis by auto
qed

lemma unat_of_nat_u32: "k < 2 ^ 32 \<Longrightarrow> unat (of_nat k :: u32) = k"
  by (simp add: unat_of_nat)

text \<open>
  Claim C9, amended. For a corpus built from the empty one by successive calls of
  \<^verbatim>\<open>insert_and_get_index\<close> on the strings \<open>ss\<close>, of which at most \<open>2\<^sup>3\<^sup>2\<close> are distinct: the
  identifiers returned are exactly \<open>0..N-1\<close> for the \<open>N\<close> distinct strings,
  \<^verbatim>\<open>index2string\<close> lists the distinct strings in insertion order, the string stored at the
  identifier returned by a call is the string of that call, and two calls return the same
  identifier exactly when their strings are equal.
\<close>

theorem insert_and_get_index_dictionary:
  assumes cap: "card (set ss) \<le> 2 ^ 32"
    and run: "insert_all empty_corpus ss = (ids, c)"
  shows "length (index2string c) = card (set ss) \<and>
         unat ` set ids = {0..<card (set ss)} \<and>
         index2string c = first_occurrences ss \<and>
         (\<forall>i<length ss. index2string c ! unat (ids ! i) = ss ! i) \<and>
         (\<forall>i<length ss. \<forall>j<length ss. ids ! i = ids ! j \<longleftrightarrow> ss ! i = ss ! j)"
proof -
  let ?N = "card (set ss)"
  let ?xs = "index2string c"
  note facts = insert_all_empty_corpus [OF run]
  have len: "length ?xs = ?N" by (simp add: facts(2) length_first_occurrences)
  have dist: "distinct ?xs" by (simp add: facts(2))
  have lenids: "length ids = length ss"
    using arg_cong [OF facts(3), of length] by simp
  have rank: "\<exists>k < ?N. ?xs ! k = ss ! i \<and> ids ! i = of_nat k \<and> unat (ids ! i) = k"
    if "i < length ss" for i
  proof -
    from insert_all_rank [OF run that] obtain k
      where k: "k < ?N" "?xs ! k = ss ! i" "ids ! i = of_nat k" by blast
    from k(1) cap have "k < 2 ^ 32" by simp
    then have "unat (ids ! i) = k" by (simp add: k(3) unat_of_nat_u32)
    with k show ?thesis by blast
  qed
  have roundtrip: "?xs ! unat (ids ! i) = ss ! i" if "i < length ss" for i
    using rank [OF that] by auto
  have inj: "ids ! i = ids ! j \<longleftrightarrow> ss ! i = ss ! j" if "i < length ss" "j < length ss" for i j
  proof
    assume "ids ! i = ids ! j"
    then show "ss ! i = ss ! j" using roundtrip [OF that(1)] roundtrip [OF that(2)] by simp
  next
    assume eq: "ss ! i = ss ! j"
    from rank [OF that(1)] obtain k where k: "k < ?N" "?xs ! k = ss ! i" "ids ! i = of_nat k"
      by blast
    from rank [OF that(2)] obtain l where l: "l < ?N" "?xs ! l = ss ! j" "ids ! j = of_nat l"
      by blast
    from k(2) l(2) eq have "?xs ! k = ?xs ! l" by simp
    with k(1) l(1) dist len have "k = l" by (simp add: nth_eq_iff_index_eq)
    with k l show "ids ! i = ids ! j" by simp
  qed
  have space: "unat ` set ids = {0..<?N}"
  proof (intro set_eqI iffI)
    fix n assume "n \<in> unat ` set ids"
    then obtain i where "i < length ss" "n = unat (ids ! i)"
      using lenids by (auto simp: in_set_conv_nth)
    with rank [of i] show "n \<in> {0..<?N}" by auto
  next
    fix n assume "n \<in> {0..<?N}"
    then have n: "n < length ?xs" using len by simp
    then have "?xs ! n \<in> set ss" using facts(2) nth_mem [OF n] by simp
    then obtain i where i: "i < length ss" "ss ! i = ?xs ! n" by (auto simp: in_set_conv_nth)
    from rank [OF i(1)] obtain k where k: "k < ?N" "?xs ! k = ss ! i" "unat (ids ! i) = k"
      by blast
    from k i n dist len have "k = n" by (simp add: nth_eq_iff_index_eq)
    with k i lenids show "n \<in> unat ` set ids" by (metis image_eqI nth_mem)
  qed
  from len space facts(2) roundtrip inj show ?thesis by blast
qed

theorem insert_and_get_index_dictionary_witness:
  "fst (insert_all empty_corpus [''the'', ''cat'', ''the'']) = [0, 1, 0] \<and>
   index2string (snd (insert_all empty_corpus [''the'', ''cat'', ''the''])) = [''the'', ''cat''] \<and>
   unat ` set (fst (insert_all empty_corpus [''the'', ''cat'', ''the''])) = {0..<2}"
proof -
  let ?ss = "[''the'', ''cat'', ''the'']"
  have cap: "card (set ?ss) \<le> 2 ^ 32"
    using card_length [of ?ss] by simp
  have run: "insert_all empty_corpus ?ss =
      (fst (insert_all empty_corpus ?ss), snd (insert_all empty_corpus ?ss))" by simp
  have n: "card (set ?ss) = 2" by (simp add: card_insert_if)
  have ids: "fst (insert_all empty_corpus ?ss) = [0, 1, 0]"
    by (simp add: insert_and_get_index_def empty_corpus_def)
  have xs: "index2string (snd (insert_all empty_corpus ?ss)) = [''the'', ''cat'']"
    by (simp add: insert_and_get_index_def empty_corpus_def)
  from insert_and_get_index_dictionary [OF cap run] n
  have "unat ` set (fst (insert_all empty_corpus ?ss)) = {0..<2}" by simp
  with ids xs show ?thesis by simp
qed

lemma inj_unary: "inj unary"
  by (rule injI) (metis length_replicate unary_def)

lemma insert_all_distinct_ids:
  assumes "i \<le> n"
  shows "fst (insert_all empty_corpus (map unary [0..<Suc n])) ! i = (of_nat i :: u32)"
proof -
  let ?ss = "map unary [0..<Suc n]"
  obtain ids c where run: "insert_all empty_corpus ?ss = (ids, c)"
    by (cases "insert_all empty_corpus ?ss")
  note facts = insert_all_empty_corpus [OF run]
  have "inj_on unary (set [0..<Suc n])"
    using inj_unary by (rule inj_on_subset) simp
  then have d: "distinct ?ss" by (simp only: distinct_map distinct_upt simp_thms)
  have i: "i < length ?ss" using assms by simp
  have xs: "index2string c = ?ss" using facts(2) d by (simp add: first_occurrences_distinct)
  from insert_all_rank [OF run i] obtain k
    where k: "k < card (set ?ss)" "index2string c ! k = ?ss ! i" "ids ! i = of_nat k" by blast
  have "card (set ?ss) = length ?ss" using d by (rule distinct_card)
  with k(1) have "k < length ?ss" by (simp only:)
  with k(2) xs d i have "k = i" by (simp only: nth_eq_iff_index_eq)
  with k(3) run show ?thesis by simp
qed

text \<open>
  Without the bound the claim fails: the identifier is the size of \<^verbatim>\<open>index2string\<close>
  truncated to 32 bits, so in a run over \<open>2\<^sup>3\<^sup>2 + 1\<close> pairwise distinct strings the last
  call returns 0, the identifier of the first string.
\<close>

theorem insert_and_get_index_wraps_counterexample:
  "fst (insert_all empty_corpus (map unary [0..<Suc (2 ^ 32)])) ! 0 =
   fst (insert_all empty_corpus (map unary [0..<Suc (2 ^ 32)])) ! (2 ^ 32) \<and>
   unary 0 \<noteq> unary (2 ^ 32)"
proof -
  have a: "fst (insert_all empty_corpus (map unary [0..<Suc (2 ^ 32)])) ! 0 = (of_nat 0 :: u32)"
    by (rule insert_all_distinct_ids) simp
  have b: "fst (insert_all empty_corpus (map unary [0..<Suc (2 ^ 32)])) ! (2 ^ 32)
      = (of_nat (2 ^ 32) :: u32)"
    by (rule insert_all_distinct_ids) simp
  have c: "(of_nat (2 ^ 32) :: u32) = of_nat 0" by simp
  have d: "unary 0 \<noteq> unary (2 ^ 32)"
    using injD [OF inj_unary, of 0 "2 ^ 32"] by auto
  from d show ?thesis by (simp only: a b c simp_thms)
qed

end
